theory Spec2Isabelle
  imports Main
begin

section \<open>A shallow embedding of the HTTP server\<close>

text \<open>
  The server is a TypeScript program on Node.js. A \<open>Buffer\<close> is a list of bytes and a
  JavaScript string is a list of characters; both are \<open>char list\<close> here, and
  \<open>Buffer.from(s)\<close>, \<open>buf.toString()\<close> and \<open>buf.toString("latin1")\<close> are the identity.
  That is exact on ASCII bytes only: from \<open>0x80\<close> on, the code's UTF-8 decoding
  merges or replaces bytes, and the model keeps them as they are. Every function that
  goes through a string (\<open>parseRequestLine\<close>, \<open>validateHeader\<close>, \<open>getField\<close> and what
  calls them) is therefore the code's on ASCII input, and a property of such a function
  is stated for ASCII input (\<open>isASCII\<close>) or at a concrete ASCII input.
  JavaScript numbers are \<open>int\<close> (or \<open>nat\<close> where the source cannot produce a negative
  value). Integers are the code's numbers up to \<open>2^53\<close> in magnitude; beyond, the
  code's are rounded to doubles, and the model's are not.
  \<open>console.log\<close> and \<open>console.assert\<close> only print, so they leave no trace in the
  model, except where evaluating their argument can throw.
  A function of the source that can throw returns a sum, \<open>Inl\<close> the error thrown; one
  that contains a loop which need not end returns an option, \<open>None\<close> when it does not
  return.
\<close>

type_synonym Buffer = "char list"

abbreviation CR :: char where "CR \<equiv> CHR 0x0D"
abbreviation LF :: char where "LF \<equiv> CHR 0x0A"
abbreviation CRLF :: Buffer where "CRLF \<equiv> [CR, LF]"

text \<open>Everything the source throws: \<open>HTTPError\<close> is the class of the source, \<open>Error\<close> the
  plain JavaScript error with its message, \<open>TypeError\<close> and \<open>RangeError\<close> the errors the
  runtime raises, \<open>SocketError\<close> the error recorded from the socket's "error" event.\<close>

datatype error =
    HTTPError int string
  | Error string
  | TypeError
  | RangeError
  | SocketError

subsection \<open>The Node.js operations the source calls\<close>

text \<open>An index argument of \<open>subarray\<close> or \<open>copyWithin\<close>: negative counts from the end,
  and the result is clamped to \<open>0 .. len\<close>.\<close>

definition rel_index :: "nat \<Rightarrow> int \<Rightarrow> nat" where
  "rel_index len k = (if k < 0 then nat (int len + k) else min (nat k) len)"

definition subarray :: "Buffer \<Rightarrow> int \<Rightarrow> int \<Rightarrow> Buffer" where
  "subarray b start stop =
     (let s = rel_index (length b) start; e = rel_index (length b) stop
      in take (e - s) (drop s b))"

text \<open>\<open>buf.indexOf(needle, start)\<close>: the first index from \<open>start\<close> on where \<open>needle\<close>
  stands, or \<open>-1\<close>. Every needle of the source is non-empty.\<close>

fun search :: "Buffer \<Rightarrow> Buffer \<Rightarrow> nat \<Rightarrow> int" where
  "search needle [] i = (if needle = [] then int i else -1)"
| "search needle (x # xs) i =
     (if take (length needle) (x # xs) = needle then int i else search needle xs (Suc i))"

definition indexOf :: "Buffer \<Rightarrow> Buffer \<Rightarrow> nat \<Rightarrow> int" where
  "indexOf buf needle start = search needle (drop start buf) start"

text \<open>\<open>source.copy(target, targetStart, 0)\<close>, returning the target as it is afterwards.
  Node throws a range error on a negative \<open>targetStart\<close> and copies as many bytes as fit.\<close>

definition copy :: "Buffer \<Rightarrow> Buffer \<Rightarrow> int \<Rightarrow> error + Buffer" where
  "copy source target targetStart =
     (if targetStart < 0 then Inl RangeError
      else let t = nat targetStart in
        if length target \<le> t then Inr target
        else let nb = min (length source) (length target - t)
             in Inr (take t target @ take nb source @ drop (t + nb) target))"

text \<open>\<open>buf.copyWithin(target, start, stop)\<close>, returning the buffer as it is afterwards.\<close>

definition copyWithin :: "Buffer \<Rightarrow> int \<Rightarrow> int \<Rightarrow> int \<Rightarrow> Buffer" where
  "copyWithin b target start stop =
     (let len = length b;
          to = rel_index len target;
          from = rel_index len start;
          final = rel_index len stop;
          count = min (int final - int from) (int len - int to)
      in if 0 < count
         then take to b @ take (nat count) (drop from b) @ drop (to + nat count) b
         else b)"

text \<open>String operations. \<open>s.split(c)\<close> for a one-character separator never gives an
  empty array. White space (for \<open>trim\<close> and \<open>parseInt\<close>) and letters (for
  \<open>toLowerCase\<close>) are the ASCII ones.\<close>

fun split :: "char \<Rightarrow> string \<Rightarrow> string list" where
  "split c [] = [[]]"
| "split c (x # xs) =
     (if x = c then [] # split c xs
      else (case split c xs of [] \<Rightarrow> [[x]] | t # ts \<Rightarrow> (x # t) # ts))"

text \<open>\<open>a.join()\<close>: the separator defaults to a comma.\<close>

fun join :: "string list \<Rightarrow> string" where
  "join [] = []"
| "join [t] = t"
| "join (t # u # ts) = t @ '','' @ join (u # ts)"

definition isWhiteSpace :: "char \<Rightarrow> bool" where
  "isWhiteSpace c = (let n = (of_char c :: nat) in (9 \<le> n \<and> n \<le> 13) \<or> n = 32)"

definition trim :: "string \<Rightarrow> string" where
  "trim s = rev (dropWhile isWhiteSpace (rev (dropWhile isWhiteSpace s)))"

definition toLowerCase :: "string \<Rightarrow> string" where
  "toLowerCase s =
     map (\<lambda>c. let n = (of_char c :: nat) in if 65 \<le> n \<and> n \<le> 90 then char_of (n + 32) else c) s"

text \<open>A number in a template literal: its decimal digits. That is the code's string for
  an integer below \<open>10^21\<close> in magnitude; from there on JavaScript prints an exponent.\<close>

fun digits :: "nat \<Rightarrow> string" where
  "digits n = (if n < 10 then [''0123456789'' ! n] else digits (n div 10) @ [''0123456789'' ! (n mod 10)])"

definition toString :: "int \<Rightarrow> string" where
  "toString n = (if n < 0 then ''-'' @ digits (nat (- n)) else digits (nat n))"

text \<open>\<open>parseInt(s)\<close>: white space, a sign, \<open>0x\<close> for base 16, then the longest run of
  digits; \<open>None\<close> is \<open>NaN\<close>, the result when there is no digit. The result is the
  exact integer the digits denote: it is the code's number when it is at most \<open>2^53\<close>
  in magnitude (\<open>safeInteger\<close>), beyond which the code rounds to the nearest double, or
  to \<open>Infinity\<close>.\<close>

definition digitValue :: "char \<Rightarrow> nat option" where
  "digitValue c =
     (let n = (of_char c :: nat) in
      if 48 \<le> n \<and> n \<le> 57 then Some (n - 48)
      else if 97 \<le> n \<and> n \<le> 122 then Some (n - 87)
      else if 65 \<le> n \<and> n \<le> 90 then Some (n - 55)
      else None)"

definition isDigitOf :: "nat \<Rightarrow> char \<Rightarrow> bool" where
  "isDigitOf radix c = (case digitValue c of None \<Rightarrow> False | Some d \<Rightarrow> d < radix)"

definition numberOf :: "nat \<Rightarrow> string \<Rightarrow> nat" where
  "numberOf radix ds =
     foldl (\<lambda>acc c. acc * radix + (case digitValue c of None \<Rightarrow> 0 | Some d \<Rightarrow> d)) 0 ds"

definition parseInt :: "string \<Rightarrow> int option" where
  "parseInt s =
     (let s1 = dropWhile isWhiteSpace s;
          negative = (take 1 s1 = ''-'');
          s2 = (if take 1 s1 = ''-'' \<or> take 1 s1 = ''+'' then drop 1 s1 else s1);
          hex = (take 2 s2 = ''0x'' \<or> take 2 s2 = ''0X'');
          radix = (if hex then 16 else 10);
          s3 = (if hex then drop 2 s2 else s2);
          ds = takeWhile (isDigitOf radix) s3
      in if ds = [] then None
         else Some (if negative then - int (numberOf radix ds) else int (numberOf radix ds)))"

text \<open>\<open>validateHeaderName\<close> and \<open>validateHeaderValue\<close> of \<open>node:http\<close>: the name is a
  non-empty HTTP token, the value has no control character but the tab. \<open>True\<close> when
  the call does not throw.\<close>

definition isTokenChar :: "char \<Rightarrow> bool" where
  "isTokenChar c =
     (let n = (of_char c :: nat) in
      (48 \<le> n \<and> n \<le> 57) \<or> (65 \<le> n \<and> n \<le> 90) \<or> (97 \<le> n \<and> n \<le> 122) \<or>
      c \<in> set ''^_`-!#$%&*+.|~'' \<or> n = 39)"

definition validateHeaderName :: "string \<Rightarrow> bool" where
  "validateHeaderName name = (name \<noteq> [] \<and> list_all isTokenChar name)"

definition validateHeaderValue :: "string \<Rightarrow> string \<Rightarrow> bool" where
  "validateHeaderValue name v =
     list_all (\<lambda>c. let n = (of_char c :: nat) in n = 9 \<or> (32 \<le> n \<and> n \<le> 126) \<or> 128 \<le> n) v"

subsection \<open>Configuration\<close>

definition kMaxHeaderLen :: int where
  "kMaxHeaderLen = 1824 * 8"

definition HTTP_VERSION :: string where
  "HTTP_VERSION = ''HTTP/1.1''"

subsection \<open>Line splitting\<close>

definition findDelimiter :: "Buffer \<Rightarrow> nat \<Rightarrow> int \<times> nat" where
  "findDelimiter buf start =
     (let crlf = indexOf buf CRLF start;
          cr = indexOf buf [CR] start;
          lf = indexOf buf [LF] start
      in if 0 \<le> crlf then (crlf, 2)
         else if 0 \<le> cr then (cr, 1)
         else if 0 \<le> lf then (lf, 1)
         else (-1, 0))"

lemma search_bounds: "search needle xs i \<noteq> -1 \<Longrightarrow> needle \<noteq> [] \<Longrightarrow>
    int i \<le> search needle xs i \<and> search needle xs i < int (i + length xs)"
proof (induction xs arbitrary: i)
  case Nil
  then show ?case by simp
next
  case (Cons x xs)
  show ?case
  proof (cases "take (length needle) (x # xs) = needle")
    case True
    then show ?thesis by simp
  next
    case False
    with Cons.prems have "search needle xs (Suc i) \<noteq> -1" by simp
    from Cons.IH [OF this Cons.prems(2)] False show ?thesis by simp
  qed
qed

lemma findDelimiter_bounds:
  assumes "findDelimiter buf start = (next, delimOffset)" and "next \<noteq> -1"
  shows "int start \<le> next \<and> next < int (length buf) \<and> 1 \<le> delimOffset"
proof -
  have b: "indexOf buf needle start \<noteq> -1 \<Longrightarrow> needle \<noteq> [] \<Longrightarrow>
      int start \<le> indexOf buf needle start \<and> indexOf buf needle start < int (length buf)"
    for needle
    using search_bounds [of needle "drop start buf" start]
    by (auto simp: indexOf_def)
  show ?thesis
    using assms b [of CRLF] b [of "[CR]"] b [of "[LF]"]
    by (auto simp: findDelimiter_def Let_def split: if_splits)
qed

function splitLines_loop :: "Buffer \<Rightarrow> nat \<Rightarrow> Buffer list \<Rightarrow> Buffer list" where
  "splitLines_loop buf start lines =
     (case findDelimiter buf start of (next, delimOffset) \<Rightarrow>
        if next = -1
        then (let chunk = subarray buf (int start) (int (length buf))
              in if chunk = [] then lines else lines @ [chunk])
        else splitLines_loop buf (nat (next + int delimOffset))
               (lines @ [subarray buf (int start) next]))"
  by pat_completeness auto
termination
  apply (relation "measure (\<lambda>(buf, start, lines). length buf - start)")
   apply simp
  subgoal for buf start lines idx delimOffset
    using findDelimiter_bounds [of buf start idx delimOffset]
    by simp linarith
  done

declare splitLines_loop.simps [simp del]

definition splitLines :: "Buffer \<Rightarrow> Buffer list" where
  "splitLines buf = splitLines_loop buf 0 []"

subsection \<open>Parsing a request header\<close>

text \<open>\<open>method'\<close> is the field \<open>method\<close> of the source; \<open>version\<close> is \<open>None\<close> where the
  JavaScript field is \<open>undefined\<close>.\<close>

record HTTPReq =
  method' :: string
  uri :: Buffer
  version :: "string option"
  headers :: "Buffer list"

text \<open>The destructuring \<open>[method, uri, version] = parsed\<close> leaves a missing element
  undefined; \<open>Buffer.from(undefined)\<close> throws a type error.\<close>

definition parseRequestLine :: "Buffer \<Rightarrow> error + (string \<times> Buffer \<times> string option)" where
  "parseRequestLine reqLine =
     (case split (CHR '' '') reqLine of
        [] \<Rightarrow> Inl TypeError
      | [m] \<Rightarrow> Inl TypeError
      | m # u # rest \<Rightarrow> Inr (m, u, (case rest of [] \<Rightarrow> None | v # _ \<Rightarrow> Some v)))"

definition validateHeader :: "Buffer \<Rightarrow> bool" where
  "validateHeader headerField =
     (case split (CHR '':'') headerField of
        [] \<Rightarrow> False
      | t # ts \<Rightarrow>
          (let headerName = trim t;
               headerValue = trim (join ts)
           in validateHeaderName headerName \<and> validateHeaderValue headerName headerValue))"

function parseHTTPReq_loop :: "Buffer list \<Rightarrow> nat \<Rightarrow> Buffer list \<Rightarrow> error + Buffer list" where
  "parseHTTPReq_loop lines i hs =
     (if int i < int (length lines) - 1
      then (let headerField = lines ! i
            in if \<not> validateHeader headerField then Inl (HTTPError 400 ''Bad field.'')
               else parseHTTPReq_loop lines (Suc i) (hs @ [headerField]))
      else Inr hs)"
  by pat_completeness auto
termination
  by (relation "measure (\<lambda>(lines, i, hs). length lines - i)") auto

declare parseHTTPReq_loop.simps [simp del]

text \<open>\<open>lines[0]\<close> of an empty array is undefined, and \<open>undefined.toString()\<close> throws.\<close>

definition parseHTTPReq :: "Buffer \<Rightarrow> error + HTTPReq" where
  "parseHTTPReq d =
     (let lines = splitLines d in
      case lines of
        [] \<Rightarrow> Inl TypeError
      | reqLine # _ \<Rightarrow>
          (case parseRequestLine reqLine of
             Inl e \<Rightarrow> Inl e
           | Inr (m, u, v) \<Rightarrow>
               (case parseHTTPReq_loop lines 1 [] of
                  Inl e \<Rightarrow> Inl e
                | Inr hs \<Rightarrow> Inr \<lparr>method' = m, uri = u, version = v, headers = hs\<rparr>)))"

subsection \<open>Field lookup\<close>

text \<open>\<open>None\<close> is \<open>null\<close>. \<open>split(":")[1]\<close> is undefined when the field has no colon, and
  \<open>undefined.trim()\<close> throws.\<close>

function getField_loop :: "Buffer list \<Rightarrow> string \<Rightarrow> nat \<Rightarrow> error + Buffer option" where
  "getField_loop hs key i =
     (if int i < int (length hs) - 1
      then (case split (CHR '':'') (hs ! i) of
              [] \<Rightarrow> Inl TypeError
            | t # ts \<Rightarrow>
                (let headerName = trim t
                 in if toLowerCase key = toLowerCase headerName
                    then (case ts of [] \<Rightarrow> Inl TypeError | v # _ \<Rightarrow> Inr (Some (trim v)))
                    else getField_loop hs key (Suc i)))
      else Inr None)"
  by pat_completeness auto
termination
  by (relation "measure (\<lambda>(hs, key, i). length hs - i)") auto

declare getField_loop.simps [simp del]

definition getField :: "Buffer list \<Rightarrow> string \<Rightarrow> error + Buffer option" where
  "getField hs key = getField_loop hs key 1"

subsection \<open>The dynamic buffer\<close>

text \<open>\<open>length_buf\<close> is the field \<open>length\<close> of the source's \<open>DynamicBuf\<close>, and the
  capacity is the length of \<open>data\<close>.\<close>

record DynamicBuf =
  data :: Buffer
  length_buf :: int

text \<open>The loop of \<open>expandBufferCap\<close>, \<open>pw\<close> being its parameter \<open>power\<close>, a natural
  number (\<open>bufferPush\<close> passes 2); \<open>None\<close> when the loop does not end, as with a
  power of 0 or 1.\<close>

partial_function (option) expandBufferCap_loop :: "nat \<Rightarrow> int \<Rightarrow> nat \<Rightarrow> nat option" where
  "expandBufferCap_loop cap newLength pw =
     (if int cap < newLength then expandBufferCap_loop (cap * pw) newLength pw
      else Some cap)"

declare expandBufferCap_loop.simps [code]

definition expandBufferCap :: "DynamicBuf \<Rightarrow> int \<Rightarrow> nat \<Rightarrow> Buffer option" where
  "expandBufferCap buf newLength pw =
     (let oldLength = length (data buf)
      in case expandBufferCap_loop (max oldLength 32) newLength pw of
           None \<Rightarrow> None
         | Some cap \<Rightarrow> Some (replicate cap (CHR 0x00)))"

definition bufferPush :: "DynamicBuf \<Rightarrow> Buffer \<Rightarrow> (error + DynamicBuf) option" where
  "bufferPush buf d =
     (let newLength = length_buf buf + int (length d);
          grown =
            (if int (length (data buf)) < newLength
             then (case expandBufferCap buf newLength 2 of
                     None \<Rightarrow> None
                   | Some grownBuf \<Rightarrow> Some (copy (data buf) grownBuf 0))
             else Some (Inr (data buf)))
      in case grown of
           None \<Rightarrow> None
         | Some (Inl e) \<Rightarrow> Some (Inl e)
         | Some (Inr storage) \<Rightarrow>
             (case copy d storage (length_buf buf) of
                Inl e \<Rightarrow> Some (Inl e)
              | Inr storage' \<Rightarrow> Some (Inr \<lparr>data = storage', length_buf = newLength\<rparr>)))"

definition bufferPop :: "DynamicBuf \<Rightarrow> int \<Rightarrow> DynamicBuf" where
  "bufferPop buf n = \<lparr>data = copyWithin (data buf) 0 n (length_buf buf), length_buf = length_buf buf - n\<rparr>"

subsection \<open>Extracting one header block\<close>

text \<open>The result is the message, or \<open>None\<close> for \<open>null\<close> (more data is needed), and the
  buffer as it is afterwards.\<close>

definition collectMessage :: "DynamicBuf \<Rightarrow> error + (HTTPReq option \<times> DynamicBuf)" where
  "collectMessage buf =
     (let index = indexOf (subarray (data buf) 0 (length_buf buf)) (CRLF @ CRLF) 0
      in if index < 0
         then (if kMaxHeaderLen \<le> length_buf buf then Inl (HTTPError 413 ''Header is too large.'')
               else Inr (None, buf))
         else (case parseHTTPReq (subarray (data buf) 0 (index + 4)) of
                 Inl e \<Rightarrow> Inl e
               | Inr msg \<Rightarrow> Inr (Some msg, bufferPop buf (index + 4))))"

subsection \<open>The connection\<close>

text \<open>
  A connection, as one run of \<open>serveClient\<close> sees it: \<open>incoming\<close> are the chunks the
  socket's "data" events will deliver, in order, after which the peer ends the stream;
  \<open>written\<close> are the buffers handed to \<open>socket.write\<close>, in order. \<open>err\<close> and
  \<open>ended\<close> are the fields of the source. Its field \<open>reader\<close>, the pending promise, is
  null between two calls and is left out; a write fails only when \<open>err\<close> is set.
\<close>

record TCPConn =
  incoming :: "Buffer list"
  err :: "error option"
  ended :: bool
  written :: "Buffer list"

definition socketRead :: "TCPConn \<Rightarrow> error + (Buffer \<times> TCPConn)" where
  "socketRead c =
     (case err c of
        Some e \<Rightarrow> Inl e
      | None \<Rightarrow>
          if ended c then Inr ([], c)
          else (case incoming c of
                  [] \<Rightarrow> Inr ([], c\<lparr>ended := True\<rparr>)
                | d # ds \<Rightarrow> Inr (d, c\<lparr>incoming := ds\<rparr>)))"

definition socketWrite :: "TCPConn \<Rightarrow> Buffer \<Rightarrow> error + TCPConn" where
  "socketWrite c d =
     (case err c of
        Some e \<Rightarrow> Inl e
      | None \<Rightarrow> Inr (c\<lparr>written := written c @ [d]\<rparr>))"

subsection \<open>Body readers\<close>

text \<open>
  A \<open>BodyReader\<close> is an object: its field \<open>length\<close> (here \<open>length_body\<close>), fixed
  when it is made, and its
  closure \<open>read\<close>. The closure's variables (\<open>remainingBodyLen\<close>, or \<open>data\<close> and
  \<open>done\<close>) live in a store, because the handler may return the request's reader as
  the response's body: \<open>reader\<close> is the address of the closure in \<open>heap\<close>, and
  \<open>free\<close> the next address to give out (the cells from there on are not in use).
  The world of one \<open>serveClient\<close> is its connection, its buffer and that store.
\<close>

datatype closure = ConnLength int | Memory Buffer bool

record BodyReader =
  length_body :: int
  reader :: nat

record World =
  conn :: TCPConn
  buf :: DynamicBuf
  heap :: "nat \<Rightarrow> closure"
  free :: nat

definition readerFromConnLength :: "World \<Rightarrow> int \<Rightarrow> BodyReader \<times> World" where
  "readerFromConnLength w remainingBodyLen =
     (\<lparr>length_body = remainingBodyLen, reader = free w\<rparr>,
      w\<lparr>heap := (heap w)(free w := ConnLength remainingBodyLen), free := Suc (free w)\<rparr>)"

definition readerFromMemory :: "World \<Rightarrow> Buffer \<Rightarrow> BodyReader \<times> World" where
  "readerFromMemory w d =
     (\<lparr>length_body = int (length d), reader = free w\<rparr>,
      w\<lparr>heap := (heap w)(free w := Memory d False), free := Suc (free w)\<rparr>)"

text \<open>\<open>r.read()\<close>: the chunk and the world afterwards.\<close>

definition read :: "BodyReader \<Rightarrow> World \<Rightarrow> (error + (Buffer \<times> World)) option" where
  "read r w =
     (case heap w (reader r) of
        Memory d done \<Rightarrow>
          if done then Some (Inr ([], w))
          else Some (Inr (d, w\<lparr>heap := (heap w)(reader r := Memory d True)\<rparr>))
      | ConnLength remainingBodyLen \<Rightarrow>
          if remainingBodyLen = 0 then Some (Inr ([], w))
          else
            (case (if length_buf (buf w) = 0
                   then (case socketRead (conn w) of
                           Inl e \<Rightarrow> Some (Inl e)
                         | Inr (d, c) \<Rightarrow>
                             (case bufferPush (buf w) d of
                                None \<Rightarrow> None
                              | Some (Inl e) \<Rightarrow> Some (Inl e)
                              | Some (Inr b) \<Rightarrow>
                                  if length d = 0
                                  then Some (Inl (Error ''Unexpected EOF from HTTP body''))
                                  else Some (Inr (w\<lparr>conn := c, buf := b\<rparr>))))
                   else Some (Inr w)) of
               None \<Rightarrow> None
             | Some (Inl e) \<Rightarrow> Some (Inl e)
             | Some (Inr w1) \<Rightarrow>
                 (let howMuchToConsume = min (length_buf (buf w1)) remainingBodyLen;
                      d = subarray (data (buf w1)) 0 howMuchToConsume
                  in Some (Inr (d, w1\<lparr>buf := bufferPop (buf w1) howMuchToConsume,
                                       heap := (heap w1)(reader r :=
                                         ConnLength (remainingBodyLen - howMuchToConsume))\<rparr>)))))"

definition readerFromReq :: "World \<Rightarrow> HTTPReq \<Rightarrow> error + (BodyReader \<times> World)" where
  "readerFromReq w req =
     (case getField (headers req) ''Content-Length'' of
        Inl e \<Rightarrow> Inl e
      | Inr contentLen \<Rightarrow>
          (case (case contentLen of
                   None \<Rightarrow> Inr (- 1)
                 | Some v \<Rightarrow>
                     (case parseInt v of
                        None \<Rightarrow> Inl (HTTPError 400 ''Bad Content-Length.'')
                      | Some n \<Rightarrow> Inr n)) of
             Inl e \<Rightarrow> Inl e
           | Inr bodyLen \<Rightarrow>
               (let bodyAllowed = (\<not> (method' req = ''GET'' \<or> method' req = ''HEAD''))
                in case getField (headers req) ''Transfer-Encoding'' of
                     Inl e \<Rightarrow> Inl e
                   | Inr te \<Rightarrow>
                       (let chunked = (te = Some ''chunked'')
                        in if \<not> bodyAllowed \<and> (0 < bodyLen \<or> chunked)
                           then Inl (HTTPError 400 ''HTTP body not allowed.'')
                           else (let bodyLen' = (if \<not> bodyAllowed then 0 else bodyLen)
                                 in if 0 \<le> bodyLen' then Inr (readerFromConnLength w bodyLen')
                                    else if chunked then Inl (HTTPError 501 ''TODO:'')
                                    else Inl (HTTPError 501 ''TODO:''))))))"

subsection \<open>Responses\<close>

record HTTPRes =
  statusCode :: int
  resHeaders :: "Buffer list"
  body :: BodyReader

definition handleReq :: "HTTPReq \<Rightarrow> BodyReader \<Rightarrow> World \<Rightarrow> HTTPRes \<times> World" where
  "handleReq req reqBody w =
     (case (if uri req = ''/echo'' then (reqBody, w)
            else readerFromMemory w (''hello world.'' @ [LF])) of
        (res, w') \<Rightarrow>
          (\<lparr>statusCode = 200, resHeaders = [''Server: my_first_http_server''], body = res\<rparr>, w'))"

text \<open>\<open>reduce\<close> without an initial value throws a type error on an empty array.\<close>

definition encodeHTTPRes :: "HTTPRes \<Rightarrow> error + Buffer" where
  "encodeHTTPRes res =
     (let delimiter = CRLF;
          statusLine = HTTP_VERSION @ '' '' @ toString (statusCode res)
      in case resHeaders res of
           [] \<Rightarrow> Inl TypeError
         | b # bs \<Rightarrow>
             (let joinedHeaderFields = foldl (\<lambda>prev b. prev @ delimiter @ b) b bs
              in Inr (statusLine @ delimiter @ joinedHeaderFields)))"

text \<open>The loop of \<open>writeHTTPRes\<close> that streams the body.\<close>

partial_function (option) writeHTTPRes_loop :: "BodyReader \<Rightarrow> World \<Rightarrow> (error + World) option" where
  "writeHTTPRes_loop r w =
     (case read r w of
        None \<Rightarrow> None
      | Some (Inl e) \<Rightarrow> Some (Inl e)
      | Some (Inr (d, w')) \<Rightarrow>
          if length d = 0 then Some (Inr w')
          else (case socketWrite (conn w') d of
                  Inl e \<Rightarrow> Some (Inl e)
                | Inr c \<Rightarrow> writeHTTPRes_loop r (w'\<lparr>conn := c\<rparr>)))"

declare writeHTTPRes_loop.simps [code]

text \<open>The response is returned as \<open>writeHTTPRes\<close> leaves it: it pushes onto the header
  list of the caller's object. The argument of \<open>console.assert\<close> is evaluated, so an
  exception of \<open>getField\<close> is one of \<open>writeHTTPRes\<close>; its value only decides what is
  printed.\<close>

definition writeHTTPRes :: "World \<Rightarrow> HTTPRes \<Rightarrow> (error + (HTTPRes \<times> World)) option" where
  "writeHTTPRes w res =
     (if length_body (body res) < 0 then Some (Inl (Error ''TODO: chunked encoding''))
      else (case getField (resHeaders res) ''Content-Length'' of
              Inl e \<Rightarrow> Some (Inl e)
            | Inr _ \<Rightarrow>
                (let res' = res\<lparr>resHeaders := resHeaders res @
                              [''Content-Length: '' @ toString (length_body (body res))]\<rparr>
                 in case encodeHTTPRes res' of
                      Inl e \<Rightarrow> Some (Inl e)
                    | Inr header \<Rightarrow>
                        (case socketWrite (conn w) header of
                           Inl e \<Rightarrow> Some (Inl e)
                         | Inr c \<Rightarrow>
                             (case writeHTTPRes_loop (body res') (w\<lparr>conn := c\<rparr>) of
                                None \<Rightarrow> None
                              | Some (Inl e) \<Rightarrow> Some (Inl e)
                              | Some (Inr w') \<Rightarrow> Some (Inr (res', w')))))))"

subsection \<open>The serve loop\<close>

text \<open>The loop of \<open>serveClient\<close> that consumes what is left of the request body.\<close>

partial_function (option) drain :: "BodyReader \<Rightarrow> World \<Rightarrow> (error + World) option" where
  "drain r w =
     (case read r w of
        None \<Rightarrow> None
      | Some (Inl e) \<Rightarrow> Some (Inl e)
      | Some (Inr (d, w')) \<Rightarrow> if 0 < length d then drain r w' else Some (Inr w'))"

declare drain.simps [code]

text \<open>\<open>Inr\<close> is the return of \<open>serveClient\<close>, after which \<open>handleNewConn\<close> destroys the
  socket; \<open>Inl\<close> is the exception it leaves with.\<close>

partial_function (option) serveClient_loop :: "World \<Rightarrow> (error + World) option" where
  "serveClient_loop w =
     (case collectMessage (buf w) of
        Inl e \<Rightarrow> Some (Inl e)
      | Inr (None, b) \<Rightarrow>
          (case socketRead (conn w) of
             Inl e \<Rightarrow> Some (Inl e)
           | Inr (d, c) \<Rightarrow>
               (case bufferPush b d of
                  None \<Rightarrow> None
                | Some (Inl e) \<Rightarrow> Some (Inl e)
                | Some (Inr b') \<Rightarrow>
                    if length d = 0 \<and> length_buf b' = 0 then Some (Inr (w\<lparr>conn := c, buf := b'\<rparr>))
                    else if length d = 0 then Some (Inl (HTTPError 400 ''Unexpected EOF.''))
                    else serveClient_loop (w\<lparr>conn := c, buf := b'\<rparr>)))
      | Inr (Some msg, b) \<Rightarrow>
          (case readerFromReq (w\<lparr>buf := b\<rparr>) msg of
             Inl e \<Rightarrow> Some (Inl e)
           | Inr (reqBody, w1) \<Rightarrow>
               (case handleReq msg reqBody w1 of
                  (res, w2) \<Rightarrow>
                    (case writeHTTPRes w2 res of
                       None \<Rightarrow> None
                     | Some (Inl e) \<Rightarrow> Some (Inl e)
                     | Some (Inr (res', w3)) \<Rightarrow>
                         if version msg = Some ''1.0'' then Some (Inr w3)
                         else (case drain reqBody w3 of
                                 None \<Rightarrow> None
                               | Some (Inl e) \<Rightarrow> Some (Inl e)
                               | Some (Inr w4) \<Rightarrow> serveClient_loop w4)))))"

declare serveClient_loop.simps [code]

text \<open>The world in which \<open>serveClient\<close> enters its loop: the buffer it has just made,
  of capacity 0, and no reader yet.\<close>

definition startWorld :: "TCPConn \<Rightarrow> World" where
  "startWorld c =
     \<lparr>conn = c, buf = \<lparr>data = [], length_buf = 0\<rparr>, heap = (\<lambda>_. Memory [] True), free = 0\<rparr>"

definition serveClient :: "TCPConn \<Rightarrow> (error + World) option" where
  "serveClient c = serveClient_loop (startWorld c)"

subsection \<open>Notions the properties are stated with\<close>

text \<open>The inputs on which the model is the code: a buffer of ASCII bytes, and a
  \<open>Content-Length\<close> value (as the lookup returns it, \<open>None\<close> when there is none) whose
  number is at most \<open>2^53\<close> in magnitude.\<close>

definition isASCII :: "Buffer \<Rightarrow> bool" where
  "isASCII b = list_all (\<lambda>c. (of_char c :: nat) < 128) b"

definition safeInteger :: "Buffer option \<Rightarrow> bool" where
  "safeInteger contentLen =
     (case contentLen of
        None \<Rightarrow> True
      | Some v \<Rightarrow> (case parseInt v of None \<Rightarrow> True | Some n \<Rightarrow> \<bar>n\<bar> \<le> 2 ^ 53))"

text \<open>The result of \<open>readerFromReq\<close> in world \<open>w\<close> is a fixed-length reader of length
  \<open>n\<close>: a reader whose declared length is \<open>n\<close> and whose closure has \<open>n\<close> bytes left
  to read, made without touching the connection or the buffer.\<close>

definition fixedLength :: "World \<Rightarrow> int \<Rightarrow> error + (BodyReader \<times> World) \<Rightarrow> bool" where
  "fixedLength w n res =
     (case res of
        Inl e \<Rightarrow> False
      | Inr (r, w') \<Rightarrow>
          length_body r = n \<and> heap w' (reader r) = ConnLength n \<and>
          conn w' = conn w \<and> buf w' = buf w)"

text \<open>A connection on which nothing has arrived or been written, and whose peer sends
  nothing.\<close>

definition silent :: TCPConn where
  "silent = \<lparr>incoming = [], err = None, ended = False, written = []\<rparr>"

text \<open>\<open>needle\<close> stands at index \<open>i\<close> of \<open>b\<close>; it stands nowhere from \<open>start\<close> up to
  \<open>stop\<close>; its first occurrence from \<open>start\<close> on is at \<open>p\<close>.\<close>

definition occursAt :: "Buffer \<Rightarrow> Buffer \<Rightarrow> nat \<Rightarrow> bool" where
  "occursAt needle b i = (take (length needle) (drop i b) = needle)"

definition noneIn :: "Buffer \<Rightarrow> Buffer \<Rightarrow> nat \<Rightarrow> nat \<Rightarrow> bool" where
  "noneIn needle b start stop = list_all (\<lambda>j. \<not> occursAt needle b j) [start..<stop]"

definition firstAt :: "Buffer \<Rightarrow> Buffer \<Rightarrow> nat \<Rightarrow> nat \<Rightarrow> bool" where
  "firstAt needle b start p = (start \<le> p \<and> occursAt needle b p \<and> noneIn needle b start p)"

text \<open>A dynamic buffer is well formed when its length lies within its storage; its
  contents are the view \<open>buf.data.subarray(0, buf.length)\<close> that \<open>collectMessage\<close>
  scans.\<close>

definition wellFormed :: "DynamicBuf \<Rightarrow> bool" where
  "wellFormed b = (0 \<le> length_buf b \<and> length_buf b \<le> int (length (data b)))"

definition contents :: "DynamicBuf \<Rightarrow> Buffer" where
  "contents b = subarray (data b) 0 (length_buf b)"

text \<open>A sequence of pushes and pops run on a buffer, and the byte queue of the
  specification run on the same sequence: a push appends, a pop drops from the front.
  \<open>no_over_pop\<close> says that no pop asks for more than the queue holds, \<open>max_length\<close>
  is the greatest length the queue has on the way.\<close>

datatype buffer_op = Push Buffer | Pop nat

fun run :: "DynamicBuf \<Rightarrow> buffer_op list \<Rightarrow> (error + DynamicBuf) option" where
  "run b [] = Some (Inr b)"
| "run b (Push d # ops) =
     (case bufferPush b d of
        None \<Rightarrow> None
      | Some (Inl e) \<Rightarrow> Some (Inl e)
      | Some (Inr b') \<Rightarrow> run b' ops)"
| "run b (Pop n # ops) = run (bufferPop b (int n)) ops"

fun queue :: "Buffer \<Rightarrow> buffer_op list \<Rightarrow> Buffer" where
  "queue q [] = q"
| "queue q (Push d # ops) = queue (q @ d) ops"
| "queue q (Pop n # ops) = queue (drop n q) ops"

fun no_over_pop :: "Buffer \<Rightarrow> buffer_op list \<Rightarrow> bool" where
  "no_over_pop q [] = True"
| "no_over_pop q (Push d # ops) = no_over_pop (q @ d) ops"
| "no_over_pop q (Pop n # ops) = (n \<le> length q \<and> no_over_pop (drop n q) ops)"

fun max_length :: "Buffer \<Rightarrow> buffer_op list \<Rightarrow> nat" where
  "max_length q [] = length q"
| "max_length q (Push d # ops) = max (length q) (max_length (q @ d) ops)"
| "max_length q (Pop n # ops) = max (length q) (max_length (drop n q) ops)"

text \<open>The capacities the growth policy can reach from the empty buffer: none yet, or the
  floor of 32 bytes doubled some number of times.\<close>

definition capacityOK :: "nat \<Rightarrow> bool" where
  "capacityOK c = (c = 0 \<or> (\<exists>k. c = 32 * 2 ^ k))"

text \<open>The lines of a header block joined with a separator, as the specification writes
  \<open>join(headerLines, "\r\n")\<close>.\<close>

fun joinWith :: "Buffer \<Rightarrow> Buffer list \<Rightarrow> Buffer" where
  "joinWith sep [] = []"
| "joinWith sep [x] = x"
| "joinWith sep (x # y # ys) = x @ sep @ joinWith sep (y # ys)"

section \<open>Properties\<close>

subsection \<open>Lemmas on the buffer operations\<close>

lemma contents_wellFormed:
  "wellFormed b \<Longrightarrow> contents b = take (nat (length_buf b)) (data b)"
  by (simp add: contents_def subarray_def rel_index_def wellFormed_def min_def)

lemma length_contents: "wellFormed b \<Longrightarrow> int (length (contents b)) = length_buf b"
  by (auto simp: contents_wellFormed wellFormed_def min_def)

lemma expandBufferCap_loop_total:
  "0 < cap \<Longrightarrow> \<exists>j. expandBufferCap_loop cap n 2 = Some (cap * 2 ^ j) \<and> n \<le> int (cap * 2 ^ j)"
proof (induction "nat (n - int cap)" arbitrary: cap rule: less_induct)
  case less
  show ?case
  proof (cases "int cap < n")
    case False
    then have "expandBufferCap_loop cap n 2 = Some (cap * 2 ^ 0)"
      by (subst expandBufferCap_loop.simps) simp
    with False show ?thesis by (intro exI [of _ 0]) simp
  next
    case True
    with less.prems have "nat (n - int (cap * 2)) < nat (n - int cap)" by simp
    from less.hyps [OF this] less.prems
    obtain j where j: "expandBufferCap_loop (cap * 2) n 2 = Some (cap * 2 * 2 ^ j)"
      "n \<le> int (cap * 2 * 2 ^ j)" by auto
    have "expandBufferCap_loop cap n 2 = expandBufferCap_loop (cap * 2) n 2"
      using True by (subst expandBufferCap_loop.simps) simp
    with j show ?thesis by (intro exI [of _ "Suc j"]) (simp add: mult.assoc)
  qed
qed

lemma copy_at:
  assumes "0 \<le> t" and "t + int (length d) \<le> int (length target)"
  shows "copy d target t = Inr (take (nat t) target @ d @ drop (nat t + length d) target)"
proof (cases "length target \<le> nat t")
  case True
  with assms have "length d = 0" "nat t = length target" by linarith+
  with assms show ?thesis by (simp add: copy_def)
next
  case False
  with assms have "min (length d) (length target - nat t) = length d" by linarith
  with assms False show ?thesis by (simp add: copy_def Let_def)
qed

lemma stored_at:
  assumes "0 \<le> l" and "l + int (length d) \<le> int (length st)"
    and "b' = \<lparr>data = take (nat l) st @ d @ drop (nat l + length d) st,
                 length_buf = l + int (length d)\<rparr>"
  shows "wellFormed b' \<and> contents b' = take (nat l) st @ d \<and> length (data b') = length st"
proof -
  have n: "length (data b') = length st" using assms by simp
  have wf: "wellFormed b'" using assms n by (simp add: wellFormed_def)
  have "contents b' = take (nat (length_buf b')) (data b')"
    using wf by (rule contents_wellFormed)
  also have "\<dots> = take (nat l + length d) (take (nat l) st @ d @ drop (nat l + length d) st)"
    using assms by (simp add: nat_add_distrib)
  also have "\<dots> = take (nat l) st @ d"
    using assms by simp
  finally show ?thesis using n wf by simp
qed

lemma bufferPush_wellFormed:
  assumes "wellFormed b"
  shows "\<exists>b'. bufferPush b d = Some (Inr b') \<and> wellFormed b' \<and>
      contents b' = contents b @ d \<and>
      length_buf b' = length_buf b + int (length d) \<and>
      (if int (length (data b)) < length_buf b + int (length d)
       then \<exists>j. length (data b') = max (length (data b)) 32 * 2 ^ j
       else length (data b') = length (data b))"
proof -
  let ?n = "length_buf b + int (length d)"
  from assms have len: "0 \<le> length_buf b" "length_buf b \<le> int (length (data b))"
    by (simp_all add: wellFormed_def)
  have c: "contents b = take (nat (length_buf b)) (data b)"
    using assms by (rule contents_wellFormed)
  show ?thesis
  proof (cases "int (length (data b)) < ?n")
    case False
    then have fits: "length_buf b + int (length d) \<le> int (length (data b))" by simp
    define b' where "b' = \<lparr>data = take (nat (length_buf b)) (data b) @ d @
        drop (nat (length_buf b) + length d) (data b), length_buf = ?n\<rparr>"
    have push: "bufferPush b d = Some (Inr b')"
      using False copy_at [OF len(1) fits] by (simp add: bufferPush_def Let_def b'_def)
    have l: "length_buf b' = ?n" by (simp add: b'_def)
    from stored_at [OF len(1) fits b'_def] push l c False show ?thesis by simp
  next
    case True
    have "0 < max (length (data b)) 32" by simp
    from expandBufferCap_loop_total [OF this, of ?n]
    obtain j where j: "expandBufferCap_loop (max (length (data b)) 32) ?n 2 =
        Some (max (length (data b)) 32 * 2 ^ j)"
      and big: "?n \<le> int (max (length (data b)) 32 * 2 ^ j)" by blast
    define cap where "cap = max (length (data b)) 32 * 2 ^ j"
    have cap: "length (data b) \<le> cap" unfolding cap_def
      by (metis le_trans max.cobounded1 mult.right_neutral mult_le_mono2 one_le_numeral one_le_power)
    define grown where "grown = data b @ replicate (cap - length (data b)) (CHR 0x00)"
    have e: "expandBufferCap b ?n 2 = Some (replicate cap (CHR 0x00))"
      using j by (simp add: expandBufferCap_def Let_def cap_def)
    have capi: "0 + int (length (data b)) \<le> int (length (replicate cap (CHR 0x00)))"
      using cap by simp
    have g: "copy (data b) (replicate cap (CHR 0x00)) 0 = Inr grown"
      using copy_at [OF _ capi] by (simp add: grown_def)
    have lg: "length grown = cap" using cap by (simp add: grown_def)
    have fits: "length_buf b + int (length d) \<le> int (length grown)"
      using big lg by (simp add: cap_def)
    define b' where "b' = \<lparr>data = take (nat (length_buf b)) grown @ d @
        drop (nat (length_buf b) + length d) grown, length_buf = ?n\<rparr>"
    have push: "bufferPush b d = Some (Inr b')"
      using True e g copy_at [OF len(1) fits] by (simp add: bufferPush_def Let_def b'_def)
    have l: "length_buf b' = ?n" by (simp add: b'_def)
    have t: "take (nat (length_buf b)) grown = take (nat (length_buf b)) (data b)"
      using len by (simp add: grown_def)
    from stored_at [OF len(1) fits b'_def] have "wellFormed b'" "contents b' = contents b @ d"
      "length (data b') = max (length (data b)) 32 * 2 ^ j"
      by (simp_all add: t c lg cap_def)
    with push l True show ?thesis by auto
  qed
qed

lemma bufferPop_wellFormed:
  assumes "wellFormed b" and "0 \<le> n" and "n \<le> length_buf b"
  shows "wellFormed (bufferPop b n) \<and> contents (bufferPop b n) = drop (nat n) (contents b) \<and>
      length_buf (bufferPop b n) = length_buf b - n \<and>
      length (data (bufferPop b n)) = length (data b)"
proof -
  from assms have len: "0 \<le> length_buf b" "length_buf b \<le> int (length (data b))"
    by (simp_all add: wellFormed_def)
  have c: "contents b = take (nat (length_buf b)) (data b)"
    using assms(1) by (rule contents_wellFormed)
  have l: "length_buf (bufferPop b n) = length_buf b - n" by (simp add: bufferPop_def)
  have i0: "rel_index (length (data b)) 0 = 0" by (simp add: rel_index_def)
  have "nat n \<le> length (data b)" "nat (length_buf b) \<le> length (data b)"
    using assms(2,3) len by linarith+
  then have i1: "rel_index (length (data b)) n = nat n"
    and i2: "rel_index (length (data b)) (length_buf b) = nat (length_buf b)"
    using assms(2) len by (simp_all add: rel_index_def)
  have cnt: "min (length_buf b - n) (int (length (data b))) = length_buf b - n"
    using assms(2,3) len by simp
  show ?thesis
  proof (cases "n = length_buf b")
    case True
    then have d: "data (bufferPop b n) = data b"
      by (simp add: bufferPop_def copyWithin_def Let_def i0 i1 i2)
    from l True have z: "length_buf (bufferPop b n) = 0" by simp
    have wf: "wellFormed (bufferPop b n)" using d z by (simp add: wellFormed_def)
    have "contents (bufferPop b n) = []" using z by (simp add: contents_wellFormed [OF wf])
    then show ?thesis using wf d l True len by (simp add: c)
  next
    case False
    with assms have lt: "n < length_buf b" by simp
    define k where "k = nat (length_buf b - n)"
    have k: "k + nat n = nat (length_buf b)" "k \<le> length (data b)" "0 < k"
      using assms(2) lt len by (simp_all add: k_def)
    have d: "data (bufferPop b n) = take k (drop (nat n) (data b)) @ drop k (data b)"
      using lt by (simp add: bufferPop_def copyWithin_def Let_def i0 i1 i2 cnt k_def)
    have lk: "length (take k (drop (nat n) (data b))) = k"
      using k \<open>nat (length_buf b) \<le> length (data b)\<close> by simp
    have ld: "length (data (bufferPop b n)) = length (data b)"
      using k by (simp only: d length_append lk length_drop)
    have lb: "length_buf (bufferPop b n) = int k" using l lt by (simp add: k_def)
    have wf: "wellFormed (bufferPop b n)" using lb ld k by (simp add: wellFormed_def)
    have "contents (bufferPop b n) = take k (data (bufferPop b n))"
      using contents_wellFormed [OF wf] lb by simp
    also have "\<dots> = take k (drop (nat n) (data b))"
      using lk by (simp only: d take_append) simp
    also have "\<dots> = drop (nat n) (take (nat (length_buf b)) (data b))"
    proof -
      have "nat (length_buf b) - nat n = k" using k(1) by linarith
      then show ?thesis by (simp add: drop_take)
    qed
    finally show ?thesis using wf l ld by (simp add: c)
  qed
qed

lemma subarray_prefix:
  assumes "wellFormed b" and "0 \<le> h" and "h \<le> length_buf b"
  shows "subarray (data b) 0 h = take (nat h) (contents b)"
proof -
  from assms have "nat h \<le> length (data b)" "nat h \<le> nat (length_buf b)"
    by (simp_all add: wellFormed_def)
  then show ?thesis
    using assms by (simp add: subarray_def rel_index_def contents_wellFormed min_absorb1)
qed

subsection \<open>C1: the encoded response header\<close>

lemma foldl_delimiter:
  "foldl (\<lambda>prev b. prev @ sep @ b) a bs = a @ concat (map (\<lambda>b. sep @ b) bs)"
  by (induction bs arbitrary: a) simp_all

lemma joinWith_Cons: "joinWith sep (a # bs) = a @ concat (map (\<lambda>b. sep @ b) bs)"
  by (induction bs arbitrary: a) simp_all

lemma foldl_joinWith: "foldl (\<lambda>prev b. prev @ sep @ b) a bs = joinWith sep (a # bs)"
  by (simp add: foldl_delimiter joinWith_Cons)

lemma encodeHTTPRes_joined:
  assumes "resHeaders res \<noteq> []"
  shows "encodeHTTPRes res =
     Inr (HTTP_VERSION @ '' '' @ toString (statusCode res) @ CRLF @ joinWith CRLF (resHeaders res))"
proof -
  from assms obtain a bs where hs: "resHeaders res = a # bs" by (cases "resHeaders res") auto
  show ?thesis
    unfolding encodeHTTPRes_def Let_def hs foldl_joinWith by simp
qed

text \<open>
  C1 says that the encoding of a response with a non-empty header list is the status
  line, the header lines joined with CRLF and a final CRLF. The encoder joins the
  lines and stops there (lemma \<open>encodeHTTPRes_joined\<close>): for status 200 and the one
  header \<open>X: y\<close> the bytes end with the last header line, and no line break follows
  it.
\<close>

theorem encodeHTTPRes_no_final_CRLF:
  "encodeHTTPRes \<lparr>statusCode = 200, resHeaders = [''X: y''],
      body = \<lparr>length_body = 2, reader = 0\<rparr>\<rparr> = Inr (''HTTP/1.1 200'' @ CRLF @ ''X: y'')"
  by code_simp

subsection \<open>C2: closing after an HTTP/1.0 request\<close>

text \<open>
  C2 says that the serve loop closes the connection after the response to a request
  whose start line declares HTTP/1.0. The parser keeps the third token of the start
  line whole, \<open>HTTP/1.0\<close>, and the loop compares it with \<open>1.0\<close>: on a chunk that
  holds two HTTP/1.0 requests the loop answers both.
\<close>

theorem serveClient_HTTP10_not_closed:
  "parseHTTPReq (''GET / HTTP/1.0'' @ CRLF @ CRLF) =
     Inr \<lparr>method' = ''GET'', uri = ''/'', version = Some ''HTTP/1.0'', headers = []\<rparr> \<and>
   (case serveClient
           (silent\<lparr>incoming := [''GET / HTTP/1.0'' @ CRLF @ CRLF @ ''GET /b HTTP/1.0'' @ CRLF @ CRLF]\<rparr>) of
      Some (Inr w) \<Rightarrow> written (conn w)
    | _ \<Rightarrow> []) =
     [''HTTP/1.1 200'' @ CRLF @ ''Server: my_first_http_server'' @ CRLF @ ''Content-Length: 13'',
      ''hello world.'' @ [LF],
      ''HTTP/1.1 200'' @ CRLF @ ''Server: my_first_http_server'' @ CRLF @ ''Content-Length: 13'',
      ''hello world.'' @ [LF]]"
  by code_simp

subsection \<open>C3: field lookup\<close>

text \<open>
  C3 says that \<open>getField\<close> looks at every field of the list. Its loop runs from index
  1 to the last index but one, the bounds of the loop over the lines of a header block,
  so the first and the last field are never looked at: a list whose only field is
  \<open>Content-Length: 5\<close> has no \<open>Content-Length\<close>, and neither has the request parsed
  from a header block with that one field. A field in the middle is found, under either
  spelling of the name.
\<close>

theorem getField_skips_first_and_last:
  "getField [''Content-Length: 5''] ''Content-Length'' = Inr None \<and>
   getField [''Content-Length: 5'', ''Host: a'', ''Accept: b''] ''Content-Length'' = Inr None \<and>
   getField [''Host: a'', ''Accept: b'', ''Content-Length: 5''] ''Content-Length'' = Inr None \<and>
   getField [''Host: a'', ''Content-Length: 5'', ''Accept: b''] ''Content-Length'' = Inr (Some ''5'') \<and>
   getField [''Host: a'', ''Content-Length: 5'', ''Accept: b''] ''content-length'' = Inr (Some ''5'') \<and>
   (case parseHTTPReq (''POST /echo HTTP/1.1'' @ CRLF @ ''Content-Length: 5'' @ CRLF @ CRLF) of
      Inl e \<Rightarrow> Inl e
    | Inr req \<Rightarrow> getField (headers req) ''Content-Length'') = Inr None"
  by code_simp

subsection \<open>C4: which delimiter ends a line\<close>

lemma search_first:
  "needle \<noteq> [] \<Longrightarrow> take (length needle) (drop k xs) = needle \<Longrightarrow>
   \<forall>j<k. take (length needle) (drop j xs) \<noteq> needle \<Longrightarrow>
   search needle xs i = int (i + k)"
proof (induction xs arbitrary: i k)
  case Nil
  then show ?case by auto
next
  case (Cons x xs)
  show ?case
  proof (cases k)
    case 0
    with Cons.prems show ?thesis by simp
  next
    case (Suc k')
    with Cons.prems have "take (length needle) (x # xs) \<noteq> needle" by fastforce
    moreover have "search needle xs (Suc i) = int (Suc i + k')"
    proof (rule Cons.IH [OF Cons.prems(1)])
      show "take (length needle) (drop k' xs) = needle" using Cons.prems(2) Suc by simp
      show "\<forall>j<k'. take (length needle) (drop j xs) \<noteq> needle"
      proof (intro allI impI)
        fix j assume "j < k'"
        then have "Suc j < k" using Suc by simp
        with Cons.prems(3) have "take (length needle) (drop (Suc j) (x # xs)) \<noteq> needle" by blast
        then show "take (length needle) (drop j xs) \<noteq> needle" by simp
      qed
    qed
    ultimately show ?thesis using Suc by simp
  qed
qed

lemma search_none:
  "needle \<noteq> [] \<Longrightarrow> \<forall>j<length xs. take (length needle) (drop j xs) \<noteq> needle \<Longrightarrow>
   search needle xs i = -1"
proof (induction xs arbitrary: i)
  case Nil
  then show ?case by simp
next
  case (Cons x xs)
  from Cons.prems(2) have "take (length needle) (drop 0 (x # xs)) \<noteq> needle" by blast
  moreover have "search needle xs (Suc i) = -1"
  proof (rule Cons.IH [OF Cons.prems(1)], intro allI impI)
    fix j assume "j < length xs"
    then have "Suc j < length (x # xs)" by simp
    with Cons.prems(2) have "take (length needle) (drop (Suc j) (x # xs)) \<noteq> needle" by blast
    then show "take (length needle) (drop j xs) \<noteq> needle" by simp
  qed
  ultimately show ?case by simp
qed

lemma indexOf_first:
  assumes "needle \<noteq> []" and "firstAt needle b start p"
  shows "indexOf b needle start = int p"
proof -
  from assms(2) have sp: "start \<le> p" and occ: "occursAt needle b p"
    and none: "\<forall>j. start \<le> j \<and> j < p \<longrightarrow> \<not> occursAt needle b j"
    by (auto simp: firstAt_def noneIn_def list_all_iff)
  have "search needle (drop start b) start = int (start + (p - start))"
  proof (rule search_first [OF assms(1)])
    show "take (length needle) (drop (p - start) (drop start b)) = needle"
      using occ sp by (simp add: occursAt_def)
    show "\<forall>j<p - start. take (length needle) (drop j (drop start b)) \<noteq> needle"
    proof (intro allI impI)
      fix j assume "j < p - start"
      then have "start \<le> j + start \<and> j + start < p" by simp
      with none have "\<not> occursAt needle b (j + start)" by blast
      then show "take (length needle) (drop j (drop start b)) \<noteq> needle"
        by (simp add: occursAt_def)
    qed
  qed
  with sp show ?thesis by (simp add: indexOf_def)
qed

lemma indexOf_none:
  assumes "needle \<noteq> []" and "noneIn needle b start (length b)"
  shows "indexOf b needle start = -1"
proof -
  from assms(2) have none: "\<forall>j. start \<le> j \<and> j < length b \<longrightarrow> \<not> occursAt needle b j"
    by (auto simp: noneIn_def list_all_iff)
  have "search needle (drop start b) start = -1"
  proof (rule search_none [OF assms(1)], intro allI impI)
    fix j assume "j < length (drop start b)"
    then have "start \<le> j + start \<and> j + start < length b" by simp
    with none have "\<not> occursAt needle b (j + start)" by blast
    then show "take (length needle) (drop j (drop start b)) \<noteq> needle"
      by (simp add: occursAt_def)
  qed
  then show ?thesis by (simp add: indexOf_def)
qed

text \<open>What \<open>findDelimiter\<close> does: the three delimiters are tried in the order CRLF, CR,
  LF, each searched for in the whole rest of the buffer, so a CRLF anywhere behind the
  scan position wins over every bare CR or LF before it.\<close>

lemma findDelimiter_order:
  "(firstAt CRLF b start p \<longrightarrow> findDelimiter b start = (int p, 2)) \<and>
   (noneIn CRLF b start (length b) \<and> firstAt [CR] b start p
      \<longrightarrow> findDelimiter b start = (int p, 1)) \<and>
   (noneIn CRLF b start (length b) \<and> noneIn [CR] b start (length b) \<and> firstAt [LF] b start p
      \<longrightarrow> findDelimiter b start = (int p, 1)) \<and>
   (noneIn CRLF b start (length b) \<and> noneIn [CR] b start (length b) \<and>
    noneIn [LF] b start (length b)
      \<longrightarrow> findDelimiter b start = (- 1, 0)) \<and>
   (findDelimiter b start = (idx, delimOffset) \<and> idx \<noteq> - 1
      \<longrightarrow> splitLines_loop b start lines =
          splitLines_loop b (nat (idx + int delimOffset)) (lines @ [subarray b (int start) idx]))"
proof (intro conjI impI)
  assume "firstAt CRLF b start p"
  then have "indexOf b CRLF start = int p" by (simp add: indexOf_first)
  then show "findDelimiter b start = (int p, 2)"
    by (simp add: findDelimiter_def Let_def)
next
  assume h: "noneIn CRLF b start (length b) \<and> firstAt [CR] b start p"
  then have "indexOf b CRLF start = - 1" by (simp add: indexOf_none)
  moreover from h have "indexOf b [CR] start = int p" by (simp add: indexOf_first)
  ultimately show "findDelimiter b start = (int p, 1)"
    by (simp add: findDelimiter_def Let_def)
next
  assume h: "noneIn CRLF b start (length b) \<and> noneIn [CR] b start (length b) \<and>
    firstAt [LF] b start p"
  then have "indexOf b CRLF start = - 1" by (simp add: indexOf_none)
  moreover from h have "indexOf b [CR] start = - 1" by (simp add: indexOf_none)
  moreover from h have "indexOf b [LF] start = int p" by (simp add: indexOf_first)
  ultimately show "findDelimiter b start = (int p, 1)"
    by (simp add: findDelimiter_def Let_def)
next
  assume h: "noneIn CRLF b start (length b) \<and> noneIn [CR] b start (length b) \<and>
    noneIn [LF] b start (length b)"
  then have "indexOf b CRLF start = - 1" by (simp add: indexOf_none)
  moreover from h have "indexOf b [CR] start = - 1" by (simp add: indexOf_none)
  moreover from h have "indexOf b [LF] start = - 1" by (simp add: indexOf_none)
  ultimately show "findDelimiter b start = (- 1, 0)"
    by (simp add: findDelimiter_def Let_def)
next
  assume "findDelimiter b start = (idx, delimOffset) \<and> idx \<noteq> - 1"
  then show "splitLines_loop b start lines =
          splitLines_loop b (nat (idx + int delimOffset)) (lines @ [subarray b (int start) idx])"
    by (subst splitLines_loop.simps) simp
qed

text \<open>
  C4 says that at each scan position the earliest delimiter ends the line (a CRLF
  counting as one delimiter of 2 bytes), so that in the bytes \<open>a LF b CR LF c\<close> the
  bare line feed at offset 1 ends the first line, \<open>a\<close>; the comments of the source
  say the same, that lines are split on CRLF, CR or LF. \<open>findDelimiter\<close> takes the
  CRLF at offset 3 and the first line is \<open>a LF b\<close>. A header block always ends in
  CRLF CRLF, so a bare CR or LF never ends a line of one: the block
  \<open>GET / HTTP/1.1 LF Host: a CRLF CRLF\<close> parses to a request with no header field
  and the text \<open>Host:\<close> inside its version.
\<close>

theorem splitLines_bare_LF_before_CRLF:
  "findDelimiter (''a'' @ [LF] @ ''b'' @ CRLF @ ''c'') 0 = (3, 2) \<and>
   splitLines (''a'' @ [LF] @ ''b'' @ CRLF @ ''c'') = [''a'' @ [LF] @ ''b'', ''c''] \<and>
   parseHTTPReq (''GET / HTTP/1.1'' @ [LF] @ ''Host: a'' @ CRLF @ CRLF) =
     Inr \<lparr>method' = ''GET'', uri = ''/'', version = Some (''HTTP/1.1'' @ [LF] @ ''Host:''),
          headers = []\<rparr>"
  by code_simp

subsection \<open>C5: the Content-Length header of a response\<close>

text \<open>
  C5 says that \<open>writeHTTPRes\<close> rejects a response whose header list already holds a
  \<open>Content-Length\<close> field, and the code asserts as much before it appends its own.
  The assertion is a \<open>console.assert\<close>, which prints and goes on: for the response
  below the lookup finds \<open>Content-Length: 5\<close>, and the response is written all the
  same, with both fields in its header.
\<close>

theorem writeHTTPRes_second_Content_Length:
  "getField [''A: b'', ''Content-Length: 5'', ''X: y''] ''Content-Length'' = Inr (Some ''5'') \<and>
   (case readerFromMemory (startWorld silent) ''hi'' of
      (r, w) \<Rightarrow>
        (case writeHTTPRes w \<lparr>statusCode = 200,
                               resHeaders = [''A: b'', ''Content-Length: 5'', ''X: y''], body = r\<rparr> of
           Some (Inr (res', w')) \<Rightarrow> Some (resHeaders res', written (conn w'))
         | _ \<Rightarrow> None)) =
     Some ([''A: b'', ''Content-Length: 5'', ''X: y'', ''Content-Length: 2''],
           [''HTTP/1.1 200'' @ CRLF @ ''A: b'' @ CRLF @ ''Content-Length: 5'' @ CRLF @ ''X: y'' @ CRLF @
              ''Content-Length: 2'', ''hi''])"
  by code_simp

subsection \<open>C6: a malformed start line\<close>

text \<open>
  C6 says that a header block whose first line is not made of exactly three tokens is
  rejected with a 400 and never yields a request with a missing field.
  \<open>parseRequestLine\<close>, declared to return a method, a uri and a version, checks
  nothing: a first line of two tokens parses to a request whose version is undefined,
  a first line of four tokens parses to a request made of the first three, and a
  first line of one token fails with a type error, which is not the \<open>HTTPError\<close> with
  status 400 that a bad header field is rejected with.
\<close>

theorem parse_short_start_line:
  "parseHTTPReq (''GET /'' @ CRLF @ CRLF) =
     Inr \<lparr>method' = ''GET'', uri = ''/'', version = None, headers = []\<rparr> \<and>
   parseHTTPReq (''GET / HTTP/1.1 extra'' @ CRLF @ CRLF) =
     Inr \<lparr>method' = ''GET'', uri = ''/'', version = Some ''HTTP/1.1'', headers = []\<rparr> \<and>
   parseHTTPReq (''GET'' @ CRLF @ CRLF) = Inl TypeError \<and>
   parseHTTPReq (''GET / HTTP/1.1'' @ CRLF @ ''Ho st: a'' @ CRLF @ CRLF) =
     Inl (HTTPError 400 ''Bad field.'')"
  by code_simp

subsection \<open>C7: the fixed-length body reader\<close>

lemma read_from_buffer:
  assumes h: "heap w (reader r) = ConnLength remaining" and pos: "0 < remaining"
    and wf: "wellFormed (buf w)" and ne: "0 < length_buf (buf w)"
  shows "\<exists>w'. read r w =
        Some (Inr (take (nat (min (length_buf (buf w)) remaining)) (contents (buf w)), w')) \<and>
      int (length (take (nat (min (length_buf (buf w)) remaining)) (contents (buf w)))) =
        min (length_buf (buf w)) remaining \<and>
      heap w' (reader r) = ConnLength (remaining - min (length_buf (buf w)) remaining) \<and>
      wellFormed (buf w') \<and>
      contents (buf w') = drop (nat (min (length_buf (buf w)) remaining)) (contents (buf w)) \<and>
      conn w' = conn w"
proof -
  define n where "n = min (length_buf (buf w)) remaining"
  have n: "0 \<le> n" "n \<le> length_buf (buf w)" using pos ne by (simp_all add: n_def)
  have "int (length (take (nat n) (contents (buf w)))) = n"
    using n length_contents [OF wf] by simp
  with subarray_prefix [OF wf n] bufferPop_wellFormed [OF wf n] h pos ne
  show ?thesis
    unfolding n_def [symmetric]
    by (simp add: read_def Let_def n_def [symmetric])
qed

text \<open>
  C7: for a reader made by \<open>readerFromConnLength\<close> whose remaining length is
  \<open>remaining\<close>: if that is 0, \<open>read\<close> returns the empty chunk and changes nothing, so
  it does so forever. If it is positive and the buffer holds bytes, \<open>read\<close> returns
  the first \<open>min(buffered, remaining)\<close> bytes of the buffer, removes them from it and
  lowers the remaining length by that number. If it is positive and the buffer is
  empty, \<open>read\<close> reads the socket first: an error of the socket is the error of
  \<open>read\<close>, an empty chunk (end of stream) fails with \<open>Unexpected EOF from HTTP body\<close>,
  and a non-empty chunk is buffered and consumed in the same way.
\<close>

theorem read_fixed_length:
  assumes "heap w (reader r) = ConnLength remaining"
  shows "(remaining = 0 \<longrightarrow> read r w = Some (Inr ([], w))) \<and>
   (0 < remaining \<and> wellFormed (buf w) \<and> 0 < length_buf (buf w) \<longrightarrow>
      (\<exists>w'. read r w =
          Some (Inr (take (nat (min (length_buf (buf w)) remaining)) (contents (buf w)), w')) \<and>
        int (length (take (nat (min (length_buf (buf w)) remaining)) (contents (buf w)))) =
          min (length_buf (buf w)) remaining \<and>
        heap w' (reader r) = ConnLength (remaining - min (length_buf (buf w)) remaining) \<and>
        wellFormed (buf w') \<and>
        contents (buf w') = drop (nat (min (length_buf (buf w)) remaining)) (contents (buf w)) \<and>
        conn w' = conn w)) \<and>
   (0 < remaining \<and> length_buf (buf w) = 0 \<longrightarrow>
      (case socketRead (conn w) of
         Inl e \<Rightarrow> read r w = Some (Inl e)
       | Inr (d, c) \<Rightarrow>
           if d = [] then read r w = Some (Inl (Error ''Unexpected EOF from HTTP body''))
           else (\<exists>w'. read r w = Some (Inr (take (nat (min (int (length d)) remaining)) d, w')) \<and>
             int (length (take (nat (min (int (length d)) remaining)) d)) =
               min (int (length d)) remaining \<and>
             heap w' (reader r) = ConnLength (remaining - min (int (length d)) remaining) \<and>
             wellFormed (buf w') \<and>
             contents (buf w') = drop (nat (min (int (length d)) remaining)) d \<and>
             conn w' = c)))"
proof (intro conjI impI)
  assume "remaining = 0"
  with assms show "read r w = Some (Inr ([], w))" by (simp add: read_def)
next
  assume "0 < remaining \<and> wellFormed (buf w) \<and> 0 < length_buf (buf w)"
  with assms read_from_buffer [of w r remaining]
  show "\<exists>w'. read r w =
          Some (Inr (take (nat (min (length_buf (buf w)) remaining)) (contents (buf w)), w')) \<and>
        int (length (take (nat (min (length_buf (buf w)) remaining)) (contents (buf w)))) =
          min (length_buf (buf w)) remaining \<and>
        heap w' (reader r) = ConnLength (remaining - min (length_buf (buf w)) remaining) \<and>
        wellFormed (buf w') \<and>
        contents (buf w') = drop (nat (min (length_buf (buf w)) remaining)) (contents (buf w)) \<and>
        conn w' = conn w" by blast
next
  assume a: "0 < remaining \<and> length_buf (buf w) = 0"
  then have wf: "wellFormed (buf w)" by (simp add: wellFormed_def)
  have empty: "contents (buf w) = []" using a by (simp add: contents_wellFormed [OF wf])
  show "case socketRead (conn w) of
         Inl e \<Rightarrow> read r w = Some (Inl e)
       | Inr (d, c) \<Rightarrow>
           if d = [] then read r w = Some (Inl (Error ''Unexpected EOF from HTTP body''))
           else (\<exists>w'. read r w = Some (Inr (take (nat (min (int (length d)) remaining)) d, w')) \<and>
             int (length (take (nat (min (int (length d)) remaining)) d)) =
               min (int (length d)) remaining \<and>
             heap w' (reader r) = ConnLength (remaining - min (int (length d)) remaining) \<and>
             wellFormed (buf w') \<and>
             contents (buf w') = drop (nat (min (int (length d)) remaining)) d \<and>
             conn w' = c)"
  proof (cases "socketRead (conn w)")
    case (Inl e)
    with assms a show ?thesis by (simp add: read_def)
  next
    case (Inr p)
    obtain d c where p: "p = (d, c)" by (cases p)
    from bufferPush_wellFormed [OF wf, of d] empty a
    obtain b1 where b1: "bufferPush (buf w) d = Some (Inr b1)" "wellFormed b1"
      "contents b1 = d" "length_buf b1 = int (length d)" by auto
    show ?thesis
    proof (cases "d = []")
      case True
      with assms a Inr p b1 show ?thesis by (simp add: read_def)
    next
      case False
      let ?w1 = "w\<lparr>conn := c, buf := b1\<rparr>"
      have s: "read r w = read r ?w1"
        using assms a Inr p b1 False by (simp add: read_def)
      have "heap ?w1 (reader r) = ConnLength remaining" using assms by simp
      from read_from_buffer [OF this, of ] a b1 False s Inr p
      show ?thesis by simp
    qed
  qed
qed

text \<open>The example of C7: with declared length 5 and \<open>hello\<close> buffered (the buffer is the
  one \<open>bufferPush\<close> makes of it), one read returns \<open>hello\<close> and the next returns the
  empty chunk; with an empty buffer and the chunks \<open>he\<close> and \<open>llo!\<close> to come, the first
  read returns \<open>he\<close> and leaves 3 to read; with an empty buffer and the stream at
  its end, the read fails.\<close>

theorem read_fixed_length_witness:
  "bufferPush \<lparr>data = [], length_buf = 0\<rparr> ''hello'' =
     Some (Inr \<lparr>data = ''hello'' @ replicate 27 (CHR 0x00), length_buf = 5\<rparr>) \<and>
   (case readerFromConnLength
          ((startWorld silent)\<lparr>buf := \<lparr>data = ''hello'' @ replicate 27 (CHR 0x00), length_buf = 5\<rparr>\<rparr>) 5 of
      (r, w) \<Rightarrow>
        heap w (reader r) = ConnLength 5 \<and> wellFormed (buf w) \<and> contents (buf w) = ''hello'' \<and>
        (\<exists>w'. read r w = Some (Inr (''hello'', w')) \<and> read r w' = Some (Inr ([], w')))) \<and>
   (case readerFromConnLength (startWorld (silent\<lparr>incoming := [''he'', ''llo!'']\<rparr>)) 5 of
      (r, w) \<Rightarrow>
        heap w (reader r) = ConnLength 5 \<and> length_buf (buf w) = 0 \<and>
        (\<exists>w'. read r w = Some (Inr (''he'', w')) \<and> heap w' (reader r) = ConnLength 3 \<and>
              contents (buf w') = [] \<and> incoming (conn w') = [''llo!''])) \<and>
   (case readerFromConnLength (startWorld silent) 5 of
      (r, w) \<Rightarrow>
        heap w (reader r) = ConnLength 5 \<and> length_buf (buf w) = 0 \<and>
        read r w = Some (Inl (Error ''Unexpected EOF from HTTP body'')))"
proof -
  have push: "bufferPush \<lparr>data = [], length_buf = 0\<rparr> ''hello'' =
     Some (Inr \<lparr>data = ''hello'' @ replicate 27 (CHR 0x00), length_buf = 5\<rparr>)"
    by code_simp
  let ?w0 = "(startWorld silent)\<lparr>buf := \<lparr>data = ''hello'' @ replicate 27 (CHR 0x00), length_buf = 5\<rparr>\<rparr>"
  have first: "case readerFromConnLength ?w0 5 of
      (r, w) \<Rightarrow>
        heap w (reader r) = ConnLength 5 \<and> wellFormed (buf w) \<and> contents (buf w) = ''hello'' \<and>
        (\<exists>w'. read r w = Some (Inr (''hello'', w')) \<and> read r w' = Some (Inr ([], w')))"
  proof -
    obtain r w where rw: "readerFromConnLength ?w0 5 = (r, w)"
      by (cases "readerFromConnLength ?w0 5")
    then have h: "heap w (reader r) = ConnLength 5"
      and b: "buf w = \<lparr>data = ''hello'' @ replicate 27 (CHR 0x00), length_buf = 5\<rparr>"
      by (auto simp: readerFromConnLength_def)
    have wf: "wellFormed (buf w)" unfolding b by (simp add: wellFormed_def)
    have c: "contents (buf w) = ''hello''" unfolding b by code_simp
    have l: "length_buf (buf w) = 5" unfolding b by simp
    from read_fixed_length [OF h] wf l c
    obtain w' where w': "read r w = Some (Inr (''hello'', w'))" "heap w' (reader r) = ConnLength 0"
      by auto
    from read_fixed_length [OF w'(2)] have "read r w' = Some (Inr ([], w'))" by simp
    with w' h wf c show ?thesis unfolding rw by auto
  qed
  let ?w1 = "startWorld (silent\<lparr>incoming := [''he'', ''llo!'']\<rparr>)"
  have second: "case readerFromConnLength ?w1 5 of
      (r, w) \<Rightarrow>
        heap w (reader r) = ConnLength 5 \<and> length_buf (buf w) = 0 \<and>
        (\<exists>w'. read r w = Some (Inr (''he'', w')) \<and> heap w' (reader r) = ConnLength 3 \<and>
              contents (buf w') = [] \<and> incoming (conn w') = [''llo!''])"
  proof -
    obtain r w where rw: "readerFromConnLength ?w1 5 = (r, w)"
      by (cases "readerFromConnLength ?w1 5")
    then have h: "heap w (reader r) = ConnLength 5" and l: "length_buf (buf w) = 0"
      and s: "socketRead (conn w) = Inr (''he'', silent\<lparr>incoming := [''llo!'']\<rparr>)"
      by (auto simp: readerFromConnLength_def startWorld_def socketRead_def silent_def)
    from read_fixed_length [OF h] l s
    obtain w' where "read r w = Some (Inr (''he'', w'))" "heap w' (reader r) = ConnLength 3"
      "contents (buf w') = []" "conn w' = silent\<lparr>incoming := [''llo!'']\<rparr>"
      by auto
    with h l show ?thesis unfolding rw by auto
  qed
  have third: "case readerFromConnLength (startWorld silent) 5 of
      (r, w) \<Rightarrow>
        heap w (reader r) = ConnLength 5 \<and> length_buf (buf w) = 0 \<and>
        read r w = Some (Inl (Error ''Unexpected EOF from HTTP body''))"
  proof -
    obtain r w where rw: "readerFromConnLength (startWorld silent) 5 = (r, w)"
      by (cases "readerFromConnLength (startWorld silent) 5")
    then have h: "heap w (reader r) = ConnLength 5" and l: "length_buf (buf w) = 0"
      and s: "socketRead (conn w) = Inr ([], silent\<lparr>ended := True\<rparr>)"
      by (auto simp: readerFromConnLength_def startWorld_def socketRead_def silent_def)
    from read_fixed_length [OF h] l s
    have "read r w = Some (Inl (Error ''Unexpected EOF from HTTP body''))" by simp
    with h l show ?thesis unfolding rw by simp
  qed
  from push first second third show ?thesis by (intro conjI)
qed

subsection \<open>C8: which body reader a request gets\<close>

lemma fixedLength_readerFromConnLength: "fixedLength w n (Inr (readerFromConnLength w n))"
  by (simp add: fixedLength_def readerFromConnLength_def)

text \<open>
  C8 as stated, refuted: the claim has a GET request with a non-zero
  \<open>Content-Length\<close> rejected with a 400. The guard is \<open>bodyLen > 0\<close>: a GET request
  with \<open>Content-Length: -1\<close> gets a reader of length 0.
\<close>

theorem readerFromReq_negative_length_on_GET:
  "(case parseHTTPReq (''GET / HTTP/1.1'' @ CRLF @ ''Host: a'' @ CRLF @ ''Content-Length: -1'' @ CRLF @
        ''Accept: b'' @ CRLF @ CRLF) of
      Inl e \<Rightarrow> Inl e
    | Inr req \<Rightarrow>
        (case readerFromReq (startWorld silent) req of
           Inl e \<Rightarrow> Inl e
         | Inr (r, w) \<Rightarrow> Inr (length_body r, heap w (reader r))))
   = Inr (0, ConnLength 0)"
  by code_simp

text \<open>
  C8, amended. The selection is made on what the lookup returns for \<open>Content-Length\<close>
  and for \<open>Transfer-Encoding\<close>; it is stated for header fields of ASCII bytes, when
  neither lookup throws, and for a \<open>Content-Length\<close> whose number is at most \<open>2^53\<close>
  in magnitude. A \<open>Content-Length\<close> that is returned and from which \<open>parseInt\<close> reads
  no number fails with 400 \<open>Bad Content-Length.\<close> before anything else. Otherwise,
  with \<open>bodyLen\<close> the number read, or -1 when no field is returned: for GET and HEAD,
  a positive \<open>bodyLen\<close> or a chunked transfer encoding fails with 400
  \<open>HTTP body not allowed.\<close>, and anything else (no field, zero or a negative number)
  gives a fixed-length reader of length 0; for the other methods, a \<open>bodyLen\<close> of 0
  or more gives a fixed-length reader of that length (its declared length and the
  bytes it has left to read are both \<open>bodyLen\<close>), and a negative or absent one fails
  with 501, chunked or not.
\<close>

theorem readerFromReq_selection:
  assumes "list_all isASCII (headers req)"
    and "getField (headers req) ''Content-Length'' = Inr contentLen"
    and "getField (headers req) ''Transfer-Encoding'' = Inr te"
    and "safeInteger contentLen"
  shows "case (case contentLen of None \<Rightarrow> Some (- 1) | Some v \<Rightarrow> parseInt v) of
        None \<Rightarrow> readerFromReq w req = Inl (HTTPError 400 ''Bad Content-Length.'')
      | Some bodyLen \<Rightarrow>
          if method' req = ''GET'' \<or> method' req = ''HEAD''
          then (if 0 < bodyLen \<or> te = Some ''chunked''
                then readerFromReq w req = Inl (HTTPError 400 ''HTTP body not allowed.'')
                else fixedLength w 0 (readerFromReq w req))
          else if 0 \<le> bodyLen then fixedLength w bodyLen (readerFromReq w req)
          else readerFromReq w req = Inl (HTTPError 501 ''TODO:'')"
  using assms(2,3) fixedLength_readerFromConnLength
  by (simp add: readerFromReq_def Let_def split: option.splits)

theorem readerFromReq_selection_witness:
  "fixedLength (startWorld silent) 5
     (readerFromReq (startWorld silent)
        \<lparr>method' = ''POST'', uri = ''/echo'', version = Some ''HTTP/1.1'',
         headers = [''Host: a'', ''Content-Length: 5'', ''Accept: b'']\<rparr>) \<and>
   readerFromReq (startWorld silent)
     \<lparr>method' = ''GET'', uri = ''/'', version = Some ''HTTP/1.1'',
      headers = [''Host: a'', ''Content-Length: 5'', ''Accept: b'']\<rparr> =
     Inl (HTTPError 400 ''HTTP body not allowed.'') \<and>
   fixedLength (startWorld silent) 0
     (readerFromReq (startWorld silent)
        \<lparr>method' = ''GET'', uri = ''/'', version = Some ''HTTP/1.1'',
         headers = [''Host: a'', ''Content-Length: -1'', ''Accept: b'']\<rparr>) \<and>
   readerFromReq (startWorld silent)
     \<lparr>method' = ''POST'', uri = ''/'', version = Some ''HTTP/1.1'',
      headers = [''Host: a'', ''Transfer-Encoding: chunked'', ''Accept: b'']\<rparr> =
     Inl (HTTPError 501 ''TODO:'') \<and>
   readerFromReq (startWorld silent)
     \<lparr>method' = ''POST'', uri = ''/'', version = Some ''HTTP/1.1'',
      headers = [''Host: a'', ''Content-Length: abc'', ''Accept: b'']\<rparr> =
     Inl (HTTPError 400 ''Bad Content-Length.'')"
proof -
  note t = readerFromReq_selection [where w = "startWorld silent"]
  let ?hs5 = "[''Host: a'', ''Content-Length: 5'', ''Accept: b'']"
  let ?hsm = "[''Host: a'', ''Content-Length: -1'', ''Accept: b'']"
  let ?hsc = "[''Host: a'', ''Transfer-Encoding: chunked'', ''Accept: b'']"
  let ?hsa = "[''Host: a'', ''Content-Length: abc'', ''Accept: b'']"
  let ?post5 = "\<lparr>method' = ''POST'', uri = ''/echo'', version = Some ''HTTP/1.1'', headers = ?hs5\<rparr>"
  let ?get5 = "\<lparr>method' = ''GET'', uri = ''/'', version = Some ''HTTP/1.1'', headers = ?hs5\<rparr>"
  let ?getm = "\<lparr>method' = ''GET'', uri = ''/'', version = Some ''HTTP/1.1'', headers = ?hsm\<rparr>"
  let ?postc = "\<lparr>method' = ''POST'', uri = ''/'', version = Some ''HTTP/1.1'', headers = ?hsc\<rparr>"
  let ?posta = "\<lparr>method' = ''POST'', uri = ''/'', version = Some ''HTTP/1.1'', headers = ?hsa\<rparr>"
  have a: "list_all isASCII ?hs5" "list_all isASCII ?hsm" "list_all isASCII ?hsc"
    "list_all isASCII ?hsa" by code_simp+
  have s: "safeInteger (Some ''5'')" "safeInteger (Some ''-1'')" "safeInteger None"
    "safeInteger (Some ''abc'')" by code_simp+
  have c5: "getField ?hs5 ''Content-Length'' = Inr (Some ''5'')" by code_simp
  have t5: "getField ?hs5 ''Transfer-Encoding'' = Inr None" by code_simp
  have cm: "getField ?hsm ''Content-Length'' = Inr (Some ''-1'')" by code_simp
  have tm: "getField ?hsm ''Transfer-Encoding'' = Inr None" by code_simp
  have cc: "getField ?hsc ''Content-Length'' = Inr None" by code_simp
  have tc: "getField ?hsc ''Transfer-Encoding'' = Inr (Some ''chunked'')" by code_simp
  have ca: "getField ?hsa ''Content-Length'' = Inr (Some ''abc'')" by code_simp
  have ta: "getField ?hsa ''Transfer-Encoding'' = Inr None" by code_simp
  have p: "parseInt ''5'' = Some 5" "parseInt ''-1'' = Some (- 1)" "parseInt ''abc'' = None"
    by code_simp+
  have 1: "fixedLength (startWorld silent) 5 (readerFromReq (startWorld silent) ?post5)"
    using t [of ?post5 "Some ''5''" None] a s c5 t5 p by simp
  have 2: "readerFromReq (startWorld silent) ?get5 = Inl (HTTPError 400 ''HTTP body not allowed.'')"
    using t [of ?get5 "Some ''5''" None] a s c5 t5 p by simp
  have 3: "fixedLength (startWorld silent) 0 (readerFromReq (startWorld silent) ?getm)"
    using t [of ?getm "Some ''-1''" None] a s cm tm p by simp
  have 4: "readerFromReq (startWorld silent) ?postc = Inl (HTTPError 501 ''TODO:'')"
    using t [of ?postc None "Some ''chunked''"] a s cc tc by simp
  have 5: "readerFromReq (startWorld silent) ?posta = Inl (HTTPError 400 ''Bad Content-Length.'')"
    using t [of ?posta "Some ''abc''" None] a s ca ta p by simp
  from 1 2 3 4 5 show ?thesis by (intro conjI)
qed

subsection \<open>C9: the buffer as a queue\<close>

lemma capacityOK_grow: "capacityOK c \<Longrightarrow> capacityOK (max c 32 * 2 ^ j)"
proof -
  assume "capacityOK c"
  then consider "c = 0" | k where "c = 32 * 2 ^ k" by (auto simp: capacityOK_def)
  then show ?thesis
  proof cases
    case 1
    then have "max c 32 * 2 ^ j = 32 * 2 ^ j" by simp
    then show ?thesis unfolding capacityOK_def by blast
  next
    case 2
    then have "32 \<le> c" by simp
    then have "max c 32 = c" by simp
    with 2 have "max c 32 * 2 ^ j = 32 * 2 ^ (k + j)" by (simp add: power_add)
    then show ?thesis unfolding capacityOK_def by blast
  qed
qed

lemma run_invariant:
  assumes "wellFormed b" and "capacityOK (length (data b))" and "no_over_pop (contents b) ops"
  shows "\<exists>b'. run b ops = Some (Inr b') \<and> wellFormed b' \<and>
      contents b' = queue (contents b) ops \<and>
      capacityOK (length (data b')) \<and>
      length (data b) \<le> length (data b') \<and>
      max_length (contents b) ops \<le> length (data b')"
  using assms
proof (induction ops arbitrary: b)
  case Nil
  from Nil.prems(1) have "length (contents b) \<le> length (data b)"
    using length_contents [OF Nil.prems(1)] by (simp add: wellFormed_def)
  with Nil show ?case by simp
next
  case (Cons x ops)
  have here: "length (contents b) \<le> length (data b)"
    using length_contents [OF Cons.prems(1)] Cons.prems(1) by (simp add: wellFormed_def)
  show ?case
  proof (cases x)
    case (Push d)
    from bufferPush_wellFormed [OF Cons.prems(1), of d]
    obtain b1 where b1: "bufferPush b d = Some (Inr b1)" "wellFormed b1"
      "contents b1 = contents b @ d"
      and cap: "if int (length (data b)) < length_buf b + int (length d)
        then \<exists>j. length (data b1) = max (length (data b)) 32 * 2 ^ j
        else length (data b1) = length (data b)" by blast
    have ok: "capacityOK (length (data b1))"
      using cap Cons.prems(2) capacityOK_grow by (auto split: if_splits)
    have mono: "length (data b) \<le> length (data b1)"
    proof (cases "int (length (data b)) < length_buf b + int (length d)")
      case True
      with cap obtain j where "length (data b1) = max (length (data b)) 32 * 2 ^ j" by auto
      then show ?thesis
        by (metis le_trans max.cobounded1 mult.right_neutral mult_le_mono2 one_le_numeral one_le_power)
    next
      case False
      with cap show ?thesis by simp
    qed
    from Cons.prems(3) Push b1 have "no_over_pop (contents b1) ops" by simp
    from Cons.IH [OF b1(2) ok this]
    obtain b' where b': "run b1 ops = Some (Inr b')" "wellFormed b'"
      "contents b' = queue (contents b1) ops" "capacityOK (length (data b'))"
      "length (data b1) \<le> length (data b')"
      "max_length (contents b1) ops \<le> length (data b')" by blast
    from here mono b'(5) have "length (contents b) \<le> length (data b')" by simp
    with b' b1 Push mono show ?thesis by simp
  next
    case (Pop n)
    with Cons.prems(3) have n: "n \<le> length (contents b)" "no_over_pop (drop n (contents b)) ops"
      by simp_all
    from n(1) length_contents [OF Cons.prems(1)] have "int n \<le> length_buf b" by simp
    from bufferPop_wellFormed [OF Cons.prems(1) _ this]
    have p: "wellFormed (bufferPop b (int n))"
      "contents (bufferPop b (int n)) = drop n (contents b)"
      "length (data (bufferPop b (int n))) = length (data b)" by simp_all
    from Cons.IH [of "bufferPop b (int n)"] p n(2) Cons.prems(2)
    obtain b' where b': "run (bufferPop b (int n)) ops = Some (Inr b')" "wellFormed b'"
      "contents b' = queue (drop n (contents b)) ops" "capacityOK (length (data b'))"
      "length (data b) \<le> length (data b')"
      "max_length (drop n (contents b)) ops \<le> length (data b')" by auto
    with Pop here show ?thesis by simp
  qed
qed

text \<open>
  C9 as stated, refuted: the claim has the capacity always be a power-of-two multiple
  of 32. \<open>serveClient\<close> makes the buffer with \<open>Buffer.alloc(0)\<close>, and a push of no
  bytes (what the serve loop does at the end of the stream) does not grow it: the
  capacity is 0, which is no such multiple.
\<close>

theorem buffer_capacity_starts_at_zero:
  "run \<lparr>data = [], length_buf = 0\<rparr> [Push []] = Some (Inr \<lparr>data = [], length_buf = 0\<rparr>) \<and>
   no_over_pop [] [Push []] \<and>
   (\<forall>k. length (data \<lparr>data = [], length_buf = 0\<rparr>) \<noteq> 32 * 2 ^ k)"
proof -
  have "run \<lparr>data = [], length_buf = 0\<rparr> [Push []] = Some (Inr \<lparr>data = [], length_buf = 0\<rparr>)"
    by code_simp
  then show ?thesis by simp
qed

text \<open>
  C9, amended: for every sequence of pushes and pops, run from the empty buffer of
  \<open>serveClient\<close>, in which no pop exceeds the current length, every operation returns,
  the buffer's contents (the first \<open>length\<close> bytes of its storage) are the queue of
  the bytes pushed less the bytes popped, and the capacity is 0 (as long as no byte
  has been pushed) or a power-of-two multiple of 32, and at least the greatest length
  the buffer has held.
\<close>

theorem buffer_is_queue:
  assumes "no_over_pop [] ops"
  shows "\<exists>b. run \<lparr>data = [], length_buf = 0\<rparr> ops = Some (Inr b) \<and>
      contents b = queue [] ops \<and>
      length_buf b = int (length (queue [] ops)) \<and>
      (length (data b) = 0 \<or> (\<exists>k. length (data b) = 32 * 2 ^ k)) \<and>
      max_length [] ops \<le> length (data b)"
proof -
  let ?e = "\<lparr>data = [], length_buf = 0\<rparr>"
  have wf: "wellFormed ?e" by (simp add: wellFormed_def)
  have c: "contents ?e = []" by (simp add: contents_wellFormed [OF wf])
  have ok: "capacityOK (length (data ?e))" by (simp add: capacityOK_def)
  from run_invariant [OF wf ok, of ops] assms c
  obtain b where b: "run ?e ops = Some (Inr b)" "wellFormed b" "contents b = queue [] ops"
    "capacityOK (length (data b))" "max_length [] ops \<le> length (data b)" by auto
  from length_contents [OF b(2)] b(3) have "length_buf b = int (length (queue [] ops))" by simp
  with b show ?thesis by (auto simp: capacityOK_def)
qed

theorem buffer_is_queue_witness:
  "no_over_pop [] [Push ''GET /'', Pop 4, Push (replicate 40 (CHR ''x'')), Pop 1] \<and>
   (\<exists>b. run \<lparr>data = [], length_buf = 0\<rparr>
          [Push ''GET /'', Pop 4, Push (replicate 40 (CHR ''x'')), Pop 1] = Some (Inr b) \<and>
        contents b = replicate 40 (CHR ''x'') \<and> length_buf b = 40 \<and>
        (length (data b) = 0 \<or> (\<exists>k. length (data b) = 32 * 2 ^ k)) \<and>
        41 \<le> length (data b))"
proof -
  let ?ops = "[Push ''GET /'', Pop 4, Push (replicate 40 (CHR ''x'')), Pop 1]"
  have h: "no_over_pop [] ?ops" by code_simp
  have q: "queue [] ?ops = replicate 40 (CHR ''x'')" by code_simp
  have m: "max_length [] ?ops = 41" by code_simp
  from buffer_is_queue [OF h] show ?thesis unfolding q m using h by simp
qed

subsection \<open>C10: when a Content-Length is rejected\<close>

lemma getField_loop_error: "getField_loop hs key i = Inl e \<Longrightarrow> e = TypeError"
proof (induction hs key i rule: getField_loop.induct)
  case (1 hs key i)
  from "1.prems" show ?case
    apply (subst (asm) getField_loop.simps)
    apply (auto split: if_splits list.splits simp: Let_def dest: "1.IH")
    done
qed

lemma getField_error: "getField hs key = Inl e \<Longrightarrow> e = TypeError"
  unfolding getField_def by (rule getField_loop_error)

text \<open>
  C10 as stated, refuted: the claim has the value \<open>5x\<close> accepted as length 5 and the
  value \<open>-1\<close> fall through to the 501, whatever the method. For GET (and HEAD) the
  check of the method comes first: \<open>5x\<close> is rejected, with 400
  \<open>HTTP body not allowed.\<close>, and \<open>-1\<close> gives a reader of length 0.
\<close>

theorem readerFromReq_GET_5x:
  "readerFromReq (startWorld silent)
     \<lparr>method' = ''GET'', uri = ''/'', version = Some ''HTTP/1.1'',
      headers = [''Host: a'', ''Content-Length: 5x'', ''Accept: b'']\<rparr> =
     Inl (HTTPError 400 ''HTTP body not allowed.'') \<and>
   fixedLength (startWorld silent) 0
     (readerFromReq (startWorld silent)
        \<lparr>method' = ''GET'', uri = ''/'', version = Some ''HTTP/1.1'',
         headers = [''Host: a'', ''Content-Length: -1'', ''Accept: b'']\<rparr>)"
proof -
  let ?hs5 = "[''Host: a'', ''Content-Length: 5x'', ''Accept: b'']"
  let ?hsm = "[''Host: a'', ''Content-Length: -1'', ''Accept: b'']"
  have c5: "getField ?hs5 ''Content-Length'' = Inr (Some ''5x'')" by code_simp
  have t5: "getField ?hs5 ''Transfer-Encoding'' = Inr None" by code_simp
  have cm: "getField ?hsm ''Content-Length'' = Inr (Some ''-1'')" by code_simp
  have tm: "getField ?hsm ''Transfer-Encoding'' = Inr None" by code_simp
  have p: "parseInt ''5x'' = Some 5" "parseInt ''-1'' = Some (- 1)" by code_simp+
  show ?thesis
    by (simp add: readerFromReq_def Let_def c5 t5 cm tm p fixedLength_def
        readerFromConnLength_def)
qed

text \<open>
  C10, amended: the claim is about the value that the lookup returns for
  \<open>Content-Length\<close> (the first and the last field are never looked at), in header
  fields of ASCII bytes. \<open>readerFromReq\<close> fails with 400 \<open>Bad Content-Length.\<close> exactly
  when a value is returned and \<open>parseInt\<close> reads no number from it. \<open>parseInt\<close> reads 5
  from \<open>5x\<close> and -1 from \<open>-1\<close>; so, for a method other than GET and HEAD and when
  the lookup of \<open>Transfer-Encoding\<close> does not throw, the value \<open>5x\<close> gives a
  fixed-length reader whose declared length and bytes left to read are 5, and the
  value \<open>-1\<close> passes the fixed-length branch and fails with 501.
\<close>

theorem readerFromReq_Bad_Content_Length:
  assumes "list_all isASCII (headers req)"
  shows "(readerFromReq w req = Inl (HTTPError 400 ''Bad Content-Length.'')) =
     (\<exists>v. getField (headers req) ''Content-Length'' = Inr (Some v) \<and> parseInt v = None) \<and>
   parseInt ''5x'' = Some 5 \<and> parseInt ''-1'' = Some (- 1) \<and>
   (method' req \<noteq> ''GET'' \<and> method' req \<noteq> ''HEAD'' \<and>
    getField (headers req) ''Content-Length'' = Inr (Some ''5x'') \<and>
    getField (headers req) ''Transfer-Encoding'' = Inr te
      \<longrightarrow> fixedLength w 5 (readerFromReq w req)) \<and>
   (method' req \<noteq> ''GET'' \<and> method' req \<noteq> ''HEAD'' \<and>
    getField (headers req) ''Content-Length'' = Inr (Some ''-1'') \<and>
    getField (headers req) ''Transfer-Encoding'' = Inr te
      \<longrightarrow> readerFromReq w req = Inl (HTTPError 501 ''TODO:''))"
proof -
  have p5: "parseInt ''5x'' = Some 5" by code_simp
  have pm: "parseInt ''-1'' = Some (- 1)" by code_simp
  have iff: "(readerFromReq w req = Inl (HTTPError 400 ''Bad Content-Length.'')) =
     (\<exists>v. getField (headers req) ''Content-Length'' = Inr (Some v) \<and> parseInt v = None)"
  proof (cases "getField (headers req) ''Content-Length''")
    case (Inl e)
    then show ?thesis using getField_error [OF Inl]
      by (simp add: readerFromReq_def)
  next
    case cl: (Inr contentLen)
    show ?thesis
    proof (cases "getField (headers req) ''Transfer-Encoding''")
      case (Inl e)
      with cl getField_error [OF Inl] show ?thesis
        by (auto simp: readerFromReq_def Let_def split: option.splits)
    next
      case (Inr te)
      with cl show ?thesis
        by (auto simp: readerFromReq_def Let_def split: option.splits)
    qed
  qed
  show ?thesis
    using iff p5 pm fixedLength_readerFromConnLength [of w 5]
    by (auto simp: readerFromReq_def Let_def)
qed

theorem readerFromReq_Bad_Content_Length_witness:
  "fixedLength (startWorld silent) 5
     (readerFromReq (startWorld silent)
        \<lparr>method' = ''POST'', uri = ''/echo'', version = Some ''HTTP/1.1'',
         headers = [''Host: a'', ''Content-Length: 5x'', ''Accept: b'']\<rparr>) \<and>
   readerFromReq (startWorld silent)
     \<lparr>method' = ''POST'', uri = ''/echo'', version = Some ''HTTP/1.1'',
      headers = [''Host: a'', ''Content-Length: -1'', ''Accept: b'']\<rparr> =
     Inl (HTTPError 501 ''TODO:'') \<and>
   getField [''Host: a'', ''Content-Length: x5'', ''Accept: b''] ''Content-Length'' = Inr (Some ''x5'') \<and>
   parseInt ''x5'' = None \<and>
   readerFromReq (startWorld silent)
     \<lparr>method' = ''POST'', uri = ''/echo'', version = Some ''HTTP/1.1'',
      headers = [''Host: a'', ''Content-Length: x5'', ''Accept: b'']\<rparr> =
     Inl (HTTPError 400 ''Bad Content-Length.'')"
proof -
  note t = readerFromReq_Bad_Content_Length [where w = "startWorld silent" and te = None]
  let ?r5 = "\<lparr>method' = ''POST'', uri = ''/echo'', version = Some ''HTTP/1.1'',
      headers = [''Host: a'', ''Content-Length: 5x'', ''Accept: b'']\<rparr>"
  let ?rm = "\<lparr>method' = ''POST'', uri = ''/echo'', version = Some ''HTTP/1.1'',
      headers = [''Host: a'', ''Content-Length: -1'', ''Accept: b'']\<rparr>"
  let ?rx = "\<lparr>method' = ''POST'', uri = ''/echo'', version = Some ''HTTP/1.1'',
      headers = [''Host: a'', ''Content-Length: x5'', ''Accept: b'']\<rparr>"
  have a: "list_all isASCII (headers ?r5)" "list_all isASCII (headers ?rm)"
    "list_all isASCII (headers ?rx)" by code_simp+
  have m: "method' ?r5 \<noteq> ''GET'' \<and> method' ?r5 \<noteq> ''HEAD''"
    "method' ?rm \<noteq> ''GET'' \<and> method' ?rm \<noteq> ''HEAD''" by simp_all
  have c5: "getField (headers ?r5) ''Content-Length'' = Inr (Some ''5x'')" by code_simp
  have t5: "getField (headers ?r5) ''Transfer-Encoding'' = Inr None" by code_simp
  have cm: "getField (headers ?rm) ''Content-Length'' = Inr (Some ''-1'')" by code_simp
  have tm: "getField (headers ?rm) ''Transfer-Encoding'' = Inr None" by code_simp
  have cx: "getField (headers ?rx) ''Content-Length'' = Inr (Some ''x5'')" by code_simp
  have px: "parseInt ''x5'' = None" by code_simp
  have 1: "fixedLength (startWorld silent) 5 (readerFromReq (startWorld silent) ?r5)"
    using t [OF a(1)] m(1) c5 t5 by blast
  have 2: "readerFromReq (startWorld silent) ?rm = Inl (HTTPError 501 ''TODO:'')"
    using t [OF a(2)] m(2) cm tm by blast
  have 3: "readerFromReq (startWorld silent) ?rx = Inl (HTTPError 400 ''Bad Content-Length.'')"
    using t [OF a(3)] cx px by blast
  have cx': "getField [''Host: a'', ''Content-Length: x5'', ''Accept: b''] ''Content-Length'' =
      Inr (Some ''x5'')" using cx by simp
  from 1 2 3 cx' px show ?thesis by (intro conjI)
qed

end
